theory Spec2Isabelle
  imports Main "HOL-Library.Sublist"
begin

section \<open>The streaming agent wrapper: data model\<close>

text \<open>
  The class \<open>Agent\<close> (the file of the agent wrapper, \<open>src/unnamed/part_000\<close>, lines 275 to
  449) keeps, per conversation (thread id), an array of handler callbacks in the object
  \<open>messagesHandlers\<close>, and the module keeps one table \<open>sentMessages\<close> of the message keys
  already sent. A handler is a JavaScript function compared by reference
  (\<open>h !== handler\<close>); the model names each function object by a number.

  What a handler does when it is called belongs to the transport layer (the server's
  handler writes one event to its connection). The model records the call and is told, by
  a parameter of type \<open>sinks\<close>, whether the callback throws on that message; a handler does
  not call back into the \<open>Agent\<close>. The language model, its tools and the checkpointer are
  outside: what they produce for one call is the stream given to \<open>messageReceived\<close>, which
  ends after finitely many chunks. The lines written by \<open>console.log\<close> are left out.
\<close>

type_synonym thread_id = string

type_synonym handler = nat

record message =
  msg_id :: "string option"
  content :: string

text \<open>A chunk of the stream is the state object; its field \<open>messages\<close> may be absent.\<close>

record chunk =
  messages :: "message list option"

text \<open>
  The asynchronous sequence the agent returns for one call: it yields chunks and then
  either completes or raises. A call of \<open>stream\<close> that rejects at once is \<open>Raise\<close> with no
  chunk before it.
\<close>

datatype agent_stream = End | Raise string | Yield chunk agent_stream

datatype error = TypeError string | SinkError handler | AgentError string

type_synonym sinks = "handler \<Rightarrow> message \<Rightarrow> bool"

text \<open>
  Both tables are object literals \<open>{}\<close>, so a property read that finds no own property goes
  on to \<open>Object.prototype\<close>. The names below are the properties every such object inherits;
  each reads as a function (or, for \<open>__proto__\<close>, as the prototype object): a truthy value
  that is not an array and has none of \<open>push\<close>, \<open>filter\<close>, \<open>forEach\<close>.
\<close>

definition object_prototype_keys :: "string list" where
  "object_prototype_keys =
     [''constructor'', ''__defineGetter__'', ''__defineSetter__'', ''hasOwnProperty'',
      ''__lookupGetter__'', ''__lookupSetter__'', ''isPrototypeOf'',
      ''propertyIsEnumerable'', ''toString'', ''valueOf'', ''__proto__'',
      ''toLocaleString'']"

record agent =
  messagesHandlers :: "string \<rightharpoonup> handler list"

text \<open>
  The state outside any one \<open>Agent\<close>: the module's \<open>sentMessages\<close>, and the calls made to
  handlers so far, in order (the observable effect of the dispatcher). A call is recorded
  when it is made, whether or not the callback then throws.
\<close>

record globals =
  sentMessages :: "string \<rightharpoonup> bool"
  delivered :: "(handler \<times> message) list"

datatype slot = Undefined | Inherited | Handlers "handler list"

text \<open>The template literal \<open>`${msg.id}`\<close>: an absent id reads as the text \<open>undefined\<close>.\<close>

definition msg_key :: "message \<Rightarrow> string" where
  "msg_key m = (case msg_id m of None \<Rightarrow> ''undefined'' | Some s \<Rightarrow> s)"

text \<open>The truthiness of \<open>sentMessages[key]\<close>.\<close>

definition sent :: "(string \<rightharpoonup> bool) \<Rightarrow> string \<Rightarrow> bool" where
  "sent sm k = (k \<in> set object_prototype_keys \<or> sm k = Some True)"

text \<open>The value of \<open>this.messagesHandlers[uuid]\<close>.\<close>

definition lookup :: "agent \<Rightarrow> thread_id \<Rightarrow> slot" where
  "lookup a uuid =
     (if uuid \<in> set object_prototype_keys then Inherited
      else case messagesHandlers a uuid of None \<Rightarrow> Undefined | Some hs \<Rightarrow> Handlers hs)"

definition handlers_of :: "agent \<Rightarrow> thread_id \<Rightarrow> handler list" where
  "handlers_of a uuid = (case lookup a uuid of Handlers hs \<Rightarrow> hs | _ \<Rightarrow> [])"

section \<open>The operations\<close>

text \<open>
  \<open>array.forEach((handler) => handler(message))\<close>: the handlers are called in array order;
  a callback that throws ends the loop, and the exception leaves \<open>forEach\<close>.
\<close>

fun forEach_handlers :: "sinks \<Rightarrow> handler list \<Rightarrow> message \<Rightarrow> globals \<Rightarrow> error option \<times> globals" where
  "forEach_handlers \<beta> [] m g = (None, g)"
| "forEach_handlers \<beta> (h # hs) m g =
     (let g' = g\<lparr>delivered := delivered g @ [(h, m)]\<rparr>
      in if \<beta> h m then (Some (SinkError h), g') else forEach_handlers \<beta> hs m g')"

text \<open>
  \<open>_sendMessageToClients(uuid, message)\<close>, lines 415 to 419: return when the value read for
  the thread is falsy, else call \<open>forEach\<close> on it.
\<close>

definition sendMessageToClients ::
  "sinks \<Rightarrow> agent \<Rightarrow> thread_id \<Rightarrow> message \<Rightarrow> globals \<Rightarrow> error option \<times> globals" where
  "sendMessageToClients \<beta> a uuid m g =
     (case lookup a uuid of
        Undefined \<Rightarrow> (None, g)
      | Inherited \<Rightarrow> (Some (TypeError ''forEach is not a function''), g)
      | Handlers hs \<Rightarrow> forEach_handlers \<beta> hs m g)"

text \<open>
  The callback of \<open>chunk.messages.forEach\<close> in \<open>messageReceived\<close>: return when the key is
  already sent, else send to the clients and only then record the key.
\<close>

definition send_if_new ::
  "sinks \<Rightarrow> agent \<Rightarrow> thread_id \<Rightarrow> message \<Rightarrow> globals \<Rightarrow> error option \<times> globals" where
  "send_if_new \<beta> a thread m g =
     (if sent (sentMessages g) (msg_key m) then (None, g)
      else case sendMessageToClients \<beta> a thread m g of
             (Some e, g') \<Rightarrow> (Some e, g')
           | (None, g') \<Rightarrow> (None, g'\<lparr>sentMessages := (sentMessages g')(msg_key m \<mapsto> True)\<rparr>))"

fun forEach_messages ::
  "sinks \<Rightarrow> agent \<Rightarrow> thread_id \<Rightarrow> message list \<Rightarrow> globals \<Rightarrow> error option \<times> globals" where
  "forEach_messages \<beta> a thread [] g = (None, g)"
| "forEach_messages \<beta> a thread (m # ms) g =
     (case send_if_new \<beta> a thread m g of
        (Some e, g') \<Rightarrow> (Some e, g')
      | (None, g') \<Rightarrow> forEach_messages \<beta> a thread ms g')"

text \<open>The body of the \<open>for await\<close> loop, with its guard \<open>if (chunk.messages)\<close>.\<close>

definition process_chunk ::
  "sinks \<Rightarrow> agent \<Rightarrow> thread_id \<Rightarrow> chunk \<Rightarrow> globals \<Rightarrow> error option \<times> globals" where
  "process_chunk \<beta> a thread c g =
     (case messages c of None \<Rightarrow> (None, g) | Some ms \<Rightarrow> forEach_messages \<beta> a thread ms g)"

text \<open>
  \<open>messageReceived(message, {thread_id})\<close>, lines 378 to 409. The stream is what
  \<open>this.internalAgent.stream\<close> returns for this call. The result is the exception that
  rejects the returned promise, if any, and the state the call leaves behind. Here the
  call runs alone from its first chunk to its end, so the handler table is the one of the
  agent throughout; what other calls do between two chunks is a run of \<open>step\<close> below.
\<close>

fun messageReceived ::
  "sinks \<Rightarrow> agent \<Rightarrow> thread_id \<Rightarrow> agent_stream \<Rightarrow> globals \<Rightarrow> error option \<times> globals" where
  "messageReceived \<beta> a thread End g = (None, g)"
| "messageReceived \<beta> a thread (Raise e) g = (Some (AgentError e), g)"
| "messageReceived \<beta> a thread (Yield c s) g =
     (case process_chunk \<beta> a thread c g of
        (Some e, g') \<Rightarrow> (Some e, g')
      | (None, g') \<Rightarrow> messageReceived \<beta> a thread s g')"

text \<open>
  \<open>registerNewMessageHandler(handler, uuid)\<close>, lines 426 to 433:
  \<open>this.messagesHandlers[uuid] || []\<close>, then
  \<open>push\<close>. For an inherited name the value read has no \<open>push\<close> and the call throws; what it
  assigned before is the value it read, so every later read is as before.
\<close>

definition registerNewMessageHandler :: "handler \<Rightarrow> thread_id \<Rightarrow> agent \<Rightarrow> error + agent" where
  "registerNewMessageHandler h uuid a =
     (case lookup a uuid of
        Inherited \<Rightarrow> Inl (TypeError ''push is not a function'')
      | Undefined \<Rightarrow> Inr (a\<lparr>messagesHandlers := (messagesHandlers a)(uuid \<mapsto> [] @ [h])\<rparr>)
      | Handlers hs \<Rightarrow> Inr (a\<lparr>messagesHandlers := (messagesHandlers a)(uuid \<mapsto> hs @ [h])\<rparr>))"

text \<open>
  \<open>unregisterNewMessageHandler(uuid, handler)\<close>, lines 439 to 448: return when the value
  read for the thread is falsy, else assign the result of \<open>filter((h) => h !== handler)\<close>.
\<close>

definition unregisterNewMessageHandler :: "thread_id \<Rightarrow> handler \<Rightarrow> agent \<Rightarrow> error + agent" where
  "unregisterNewMessageHandler uuid h a =
     (case lookup a uuid of
        Undefined \<Rightarrow> Inr a
      | Inherited \<Rightarrow> Inl (TypeError ''filter is not a function'')
      | Handlers hs \<Rightarrow>
          Inr (a\<lparr>messagesHandlers := (messagesHandlers a)(uuid \<mapsto> filter (\<lambda>x. x \<noteq> h) hs)\<rparr>))"

section \<open>Runs: calls interleaved at the awaits\<close>

text \<open>
  JavaScript runs one callback at a time, and \<open>messageReceived\<close> gives way only at the
  \<open>await\<close> of each chunk. So a run of the server is a sequence of events: a registration, a
  removal, or the processing of one chunk of some call of \<open>messageReceived\<close>. Each event
  names the \<open>Agent\<close> instance it is called on. An exception goes to the caller of that
  event; the state stays as the call left it. Every sequence of snapshots is allowed, so
  the runs include every interleaving of several calls.
\<close>

datatype event =
    Subscribe nat handler thread_id
  | Unsubscribe nat thread_id handler
  | Snapshot nat thread_id chunk

record system =
  agents :: "nat \<Rightarrow> agent"
  shared :: globals

fun step :: "sinks \<Rightarrow> event \<Rightarrow> system \<Rightarrow> system" where
  "step \<beta> (Subscribe i h uuid) s =
     (case registerNewMessageHandler h uuid (agents s i) of
        Inl e \<Rightarrow> s
      | Inr a' \<Rightarrow> s\<lparr>agents := (agents s)(i := a')\<rparr>)"
| "step \<beta> (Unsubscribe i uuid h) s =
     (case unregisterNewMessageHandler uuid h (agents s i) of
        Inl e \<Rightarrow> s
      | Inr a' \<Rightarrow> s\<lparr>agents := (agents s)(i := a')\<rparr>)"
| "step \<beta> (Snapshot i thread c) s =
     s\<lparr>shared := snd (process_chunk \<beta> (agents s i) thread c (shared s))\<rparr>"

fun run :: "sinks \<Rightarrow> event list \<Rightarrow> system \<Rightarrow> system" where
  "run \<beta> [] s = s"
| "run \<beta> (ev # evs) s = run \<beta> evs (step \<beta> ev s)"

text \<open>The state of a fresh process: no handler registered, nothing sent.\<close>

definition new_agent :: agent where
  "new_agent = \<lparr>messagesHandlers = Map.empty\<rparr>"

definition new_globals :: globals where
  "new_globals = \<lparr>sentMessages = Map.empty, delivered = []\<rparr>"

definition new_system :: system where
  "new_system = \<lparr>agents = (\<lambda>i. new_agent), shared = new_globals\<rparr>"


section \<open>Notions used to state the properties\<close>

text \<open>The calls that send each message of a list to each handler of a list, in order.\<close>

definition fanout :: "handler list \<Rightarrow> message list \<Rightarrow> (handler \<times> message) list" where
  "fanout hs ms = concat (map (\<lambda>m. map (\<lambda>h. (h, m)) hs) ms)"

text \<open>The messages of a list whose key is neither sent already nor met earlier in the list.\<close>

fun unsent :: "(string \<rightharpoonup> bool) \<Rightarrow> message list \<Rightarrow> message list" where
  "unsent sm [] = []"
| "unsent sm (m # ms) =
     (if sent sm (msg_key m) then unsent sm ms
      else m # unsent (sm(msg_key m \<mapsto> True)) ms)"

text \<open>The table after the keys of a list of messages have been recorded.\<close>

fun mark_sent :: "(string \<rightharpoonup> bool) \<Rightarrow> message list \<Rightarrow> (string \<rightharpoonup> bool)" where
  "mark_sent sm [] = sm"
| "mark_sent sm (m # ms) =
     mark_sent (if sent sm (msg_key m) then sm else sm(msg_key m \<mapsto> True)) ms"

text \<open>The messages of all chunks of a stream, in the order of arrival.\<close>

fun stream_messages :: "agent_stream \<Rightarrow> message list" where
  "stream_messages End = []"
| "stream_messages (Raise e) = []"
| "stream_messages (Yield c s) =
     (case messages c of None \<Rightarrow> [] | Some ms \<Rightarrow> ms) @ stream_messages s"

text \<open>The stream that yields the chunks of a list and goes on as a given stream.\<close>

fun yields :: "chunk list \<Rightarrow> agent_stream \<Rightarrow> agent_stream" where
  "yields [] s = s"
| "yields (c # cs) s = Yield c (yields cs s)"

text \<open>The calls received by one handler, in order.\<close>

definition received_by :: "handler \<Rightarrow> (handler \<times> message) list \<Rightarrow> message list" where
  "received_by h ds = map snd (filter (\<lambda>d. fst d = h) ds)"

text \<open>The log with each message replaced by its key.\<close>

definition log_keys :: "(handler \<times> message) list \<Rightarrow> (handler \<times> string) list" where
  "log_keys ds = map (\<lambda>d. (fst d, msg_key (snd d))) ds"


section \<open>Concrete inputs for the examples\<close>

text \<open>
  The thread id the server uses when the request names none, a message with a given id,
  handlers that never throw, and handlers of which the one numbered 1 always throws.
\<close>

definition default_thread :: thread_id where
  "default_thread = ''chat-id-XXX''"

definition with_id :: "string \<Rightarrow> message" where
  "with_id k = \<lparr>msg_id = Some k, content = ''text''\<rparr>"

definition no_id :: "string \<Rightarrow> message" where
  "no_id c = \<lparr>msg_id = None, content = c\<rparr>"

definition polite :: sinks where
  "polite h m = False"

definition first_throws :: sinks where
  "first_throws h m = (h = 1)"

text \<open>The cumulative snapshots of three messages, as a stream that completes.\<close>

definition three_snapshots :: "message \<Rightarrow> message \<Rightarrow> message \<Rightarrow> agent_stream" where
  "three_snapshots m1 m2 m3 =
     Yield \<lparr>messages = Some [m1]\<rparr>
       (Yield \<lparr>messages = Some [m1, m2]\<rparr>
         (Yield \<lparr>messages = Some [m1, m2, m3]\<rparr> End))"

text \<open>
  A client that connects late: a first turn on the default thread is processed while
  nobody listens, then handler 7 is registered.
\<close>

definition late_subscriber :: system where
  "late_subscriber =
     run polite
       [Snapshot 0 default_thread \<lparr>messages = Some [with_id ''m1'']\<rparr>,
        Subscribe 0 7 default_thread] new_system"

text \<open>Two clients on the default thread, registered in the order 1, 2.\<close>

definition two_clients :: agent where
  "two_clients = agents (run polite [Subscribe 0 1 default_thread, Subscribe 0 2 default_thread] new_system) 0"

text \<open>
  Clients that come and go on the default thread while three cumulative snapshots are
  processed: handlers 1 and 2 listen from the start, 1 leaves after the first snapshot,
  3 joins before the last.
\<close>

definition coming_and_going :: "event list" where
  "coming_and_going =
     [Subscribe 0 1 default_thread, Subscribe 0 2 default_thread,
      Snapshot 0 default_thread \<lparr>messages = Some [with_id ''m1'']\<rparr>,
      Unsubscribe 0 default_thread 1,
      Snapshot 0 default_thread \<lparr>messages = Some [with_id ''m1'', with_id ''m2'']\<rparr>,
      Subscribe 0 3 default_thread,
      Snapshot 0 default_thread
        \<lparr>messages = Some [with_id ''m1'', with_id ''m2'', with_id ''m3'']\<rparr>]"

text \<open>The same handler registered twice on the default thread, then one message.\<close>

definition registered_twice :: "event list" where
  "registered_twice =
     [Subscribe 0 1 default_thread, Subscribe 0 1 default_thread,
      Snapshot 0 default_thread \<lparr>messages = Some [with_id ''m1'']\<rparr>]"

text \<open>
  Two \<open>Agent\<close> instances: handler 1 listens on the default thread of instance 0, handler 5
  on another thread of instance 1.
\<close>

definition two_agents :: system where
  "two_agents =
     run polite [Subscribe 0 1 default_thread, Subscribe 1 5 ''other-thread''] new_system"

text \<open>
  Handlers of which the one numbered 2 always throws, and handlers of which the one
  numbered 2 throws on the message with id \<open>m2\<close> only.
\<close>

definition second_throws :: sinks where
  "second_throws h m = (h = 2)"

definition second_rejects :: sinks where
  "second_rejects h m = (h = 2 \<and> msg_id m = Some ''m2'')"

text \<open>Three clients on the default thread, registered in the order 1, 2, 3.\<close>

definition three_clients :: agent where
  "three_clients =
     agents (run polite [Subscribe 0 1 default_thread, Subscribe 0 2 default_thread,
                         Subscribe 0 3 default_thread] new_system) 0"

text \<open>
  A turn on another thread between the snapshots of a turn on the default thread: the
  other turn carries the message \<open>m2\<close> first.
\<close>

definition interleaved_turns :: "event list" where
  "interleaved_turns =
     [Subscribe 0 1 default_thread,
      Snapshot 0 default_thread \<lparr>messages = Some [with_id ''m1'']\<rparr>,
      Snapshot 0 ''other-thread'' \<lparr>messages = Some [with_id ''m2'']\<rparr>,
      Snapshot 0 default_thread \<lparr>messages = Some [with_id ''m1'', with_id ''m2'']\<rparr>,
      Snapshot 0 default_thread
        \<lparr>messages = Some [with_id ''m1'', with_id ''m2'', with_id ''m3'']\<rparr>]"

text \<open>
  What other calls do between the snapshots of a turn without touching it: a turn on
  another thread of another instance with a message of its own and a registration
  there, then a removal there.
\<close>

definition elsewhere_first :: "event list" where
  "elsewhere_first =
     [Snapshot 1 ''other-thread'' \<lparr>messages = Some [with_id ''z1'']\<rparr>,
      Subscribe 1 6 ''other-thread'']"

definition elsewhere_second :: "event list" where
  "elsewhere_second = [Unsubscribe 1 ''other-thread'' 5]"

text \<open>
  The turn of three snapshots on the default thread of instance 0, started in the state
  \<open>two_agents\<close>, with those events between its snapshots: the states in which the second
  and the third snapshot are processed.
\<close>

definition before_second_snapshot :: system where
  "before_second_snapshot =
     run polite elsewhere_first
       (step polite (Snapshot 0 default_thread \<lparr>messages = Some [with_id ''m1'']\<rparr>) two_agents)"

definition before_third_snapshot :: system where
  "before_third_snapshot =
     run polite elsewhere_second
       (step polite (Snapshot 0 default_thread \<lparr>messages = Some [with_id ''m1'', with_id ''m2'']\<rparr>)
          before_second_snapshot)"

text \<open>
  Handlers 1 and 2 listen on the default thread of instance 0 and handler 5 on another
  thread of instance 1; a message is sent on the first thread, then a message with the
  same id (or, in the second run, again without id) on the other.
\<close>

definition same_id_on_two_threads :: "event list" where
  "same_id_on_two_threads =
     [Subscribe 0 1 default_thread, Subscribe 0 2 default_thread,
      Subscribe 1 5 ''other-thread'',
      Snapshot 0 default_thread \<lparr>messages = Some [with_id ''X'']\<rparr>,
      Snapshot 1 ''other-thread'' \<lparr>messages = Some [with_id ''X'']\<rparr>]"

definition no_id_on_two_threads :: "event list" where
  "no_id_on_two_threads =
     [Subscribe 0 1 default_thread, Subscribe 0 2 default_thread,
      Subscribe 1 5 ''other-thread'',
      Snapshot 0 default_thread \<lparr>messages = Some [no_id ''first answer'']\<rparr>,
      Snapshot 1 ''other-thread'' \<lparr>messages = Some [no_id ''second answer'']\<rparr>]"

section \<open>Basic facts\<close>

subsection \<open>Calling the handlers of one thread\<close>

lemma forEach_handlers_shape:
  "\<exists>ds. forEach_handlers \<beta> hs m g = (fst (forEach_handlers \<beta> hs m g), g\<lparr>delivered := delivered g @ ds\<rparr>)
      \<and> prefix ds (map (\<lambda>h. (h, m)) hs)"
proof (induction hs arbitrary: g)
  case Nil
  show ?case by simp
next
  case (Cons h hs)
  show ?case
  proof (cases "\<beta> h m")
    case True
    then show ?thesis by (auto simp: Let_def intro!: exI[of _ "[(h, m)]"])
  next
    case False
    obtain ds where ds: "forEach_handlers \<beta> hs m (g\<lparr>delivered := delivered g @ [(h, m)]\<rparr>) =
        (fst (forEach_handlers \<beta> hs m (g\<lparr>delivered := delivered g @ [(h, m)]\<rparr>)),
         g\<lparr>delivered := delivered g @ [(h, m)]\<rparr>\<lparr>delivered := delivered (g\<lparr>delivered := delivered g @ [(h, m)]\<rparr>) @ ds\<rparr>)"
      and p: "prefix ds (map (\<lambda>h. (h, m)) hs)"
      using Cons.IH by blast
    show ?thesis
      using False ds p by (intro exI[of _ "(h, m) # ds"]) (simp add: Let_def)
  qed
qed

lemma forEach_handlers_ok:
  "\<forall>h \<in> set hs. \<not> \<beta> h m \<Longrightarrow>
   forEach_handlers \<beta> hs m g = (None, g\<lparr>delivered := delivered g @ map (\<lambda>h. (h, m)) hs\<rparr>)"
  by (induction hs arbitrary: g) (simp_all add: Let_def)

lemma forEach_handlers_throw:
  "\<forall>x \<in> set pre. \<not> \<beta> x m \<Longrightarrow> \<beta> h m \<Longrightarrow>
   forEach_handlers \<beta> (pre @ h # post) m g =
     (Some (SinkError h), g\<lparr>delivered := delivered g @ map (\<lambda>x. (x, m)) (pre @ [h])\<rparr>)"
  by (induction pre arbitrary: g) (simp_all add: Let_def)

lemma forEach_handlers_None:
  "forEach_handlers \<beta> hs m g = (None, g') \<Longrightarrow>
   g' = g\<lparr>delivered := delivered g @ map (\<lambda>h. (h, m)) hs\<rparr> \<and> (\<forall>h \<in> set hs. \<not> \<beta> h m)"
proof (induction hs arbitrary: g)
  case Nil
  then show ?case by simp
next
  case (Cons h hs)
  from Cons.prems have nb: "\<not> \<beta> h m"
    by (auto simp: Let_def split: if_splits)
  with Cons.prems have "forEach_handlers \<beta> hs m (g\<lparr>delivered := delivered g @ [(h, m)]\<rparr>) = (None, g')"
    by (simp add: Let_def)
  from Cons.IH[OF this] nb show ?case by simp
qed

subsection \<open>Sending one message, and the messages of one chunk\<close>

lemma sendMessageToClients_shape:
  "\<exists>ds. sendMessageToClients \<beta> a uuid m g =
          (fst (sendMessageToClients \<beta> a uuid m g), g\<lparr>delivered := delivered g @ ds\<rparr>)
      \<and> prefix ds (map (\<lambda>h. (h, m)) (handlers_of a uuid))"
proof (cases "lookup a uuid")
  case Undefined
  then show ?thesis by (simp add: sendMessageToClients_def handlers_of_def)
next
  case Inherited
  then show ?thesis by (simp add: sendMessageToClients_def handlers_of_def)
next
  case (Handlers hs)
  then show ?thesis
    using forEach_handlers_shape[of \<beta> hs m g]
    by (simp add: sendMessageToClients_def handlers_of_def)
qed

lemma sendMessageToClients_None:
  assumes "sendMessageToClients \<beta> a uuid m g = (None, g')"
  shows "g' = g\<lparr>delivered := delivered g @ map (\<lambda>h. (h, m)) (handlers_of a uuid)\<rparr>"
proof (cases "lookup a uuid")
  case Undefined
  with assms show ?thesis by (simp add: sendMessageToClients_def handlers_of_def)
next
  case Inherited
  with assms show ?thesis by (simp add: sendMessageToClients_def handlers_of_def)
next
  case (Handlers hs)
  with assms have "forEach_handlers \<beta> hs m g = (None, g')"
    by (simp add: sendMessageToClients_def)
  from forEach_handlers_None[OF this] Handlers show ?thesis
    by (simp add: handlers_of_def)
qed

lemma sendMessageToClients_ok:
  assumes "\<forall>h \<in> set (handlers_of a uuid). \<not> \<beta> h m" and "lookup a uuid \<noteq> Inherited"
  shows "sendMessageToClients \<beta> a uuid m g =
           (None, g\<lparr>delivered := delivered g @ map (\<lambda>h. (h, m)) (handlers_of a uuid)\<rparr>)"
proof (cases "lookup a uuid")
  case Undefined
  then show ?thesis by (simp add: sendMessageToClients_def handlers_of_def)
next
  case Inherited
  with assms show ?thesis by simp
next
  case (Handlers hs)
  with assms have "\<forall>h \<in> set hs. \<not> \<beta> h m" by (simp add: handlers_of_def)
  from forEach_handlers_ok[where \<beta>=\<beta> and hs=hs and m=m and g=g, OF this] Handlers show ?thesis
    by (simp add: sendMessageToClients_def handlers_of_def)
qed

lemma send_if_new_sent:
  "sent (sentMessages g) (msg_key m) \<Longrightarrow> send_if_new \<beta> a thread m g = (None, g)"
  by (simp add: send_if_new_def)

lemma send_if_new_None:
  assumes "send_if_new \<beta> a thread m g = (None, g')" and "\<not> sent (sentMessages g) (msg_key m)"
  shows "delivered g' = delivered g @ map (\<lambda>h. (h, m)) (handlers_of a thread)"
    and "sentMessages g' = (sentMessages g)(msg_key m \<mapsto> True)"
proof -
  obtain r g1 where s: "sendMessageToClients \<beta> a thread m g = (r, g1)"
    by (cases "sendMessageToClients \<beta> a thread m g")
  with assms have r: "r = None" and g': "g' = g1\<lparr>sentMessages := (sentMessages g1)(msg_key m \<mapsto> True)\<rparr>"
    by (auto simp: send_if_new_def split: option.splits)
  have g1: "g1 = g\<lparr>delivered := delivered g @ map (\<lambda>h. (h, m)) (handlers_of a thread)\<rparr>"
    using sendMessageToClients_None s r by blast
  show "delivered g' = delivered g @ map (\<lambda>h. (h, m)) (handlers_of a thread)"
    by (simp add: g' g1)
  show "sentMessages g' = (sentMessages g)(msg_key m \<mapsto> True)"
    by (simp add: g' g1)
qed

lemma send_if_new_Some:
  assumes "send_if_new \<beta> a thread m g = (Some e, g')"
  shows "\<not> sent (sentMessages g) (msg_key m) \<and>
         (\<exists>ds. g' = g\<lparr>delivered := delivered g @ ds\<rparr> \<and>
               prefix ds (map (\<lambda>h. (h, m)) (handlers_of a thread)))"
proof -
  from assms have ns: "\<not> sent (sentMessages g) (msg_key m)"
    by (auto simp: send_if_new_def split: if_splits)
  with assms have s: "sendMessageToClients \<beta> a thread m g = (Some e, g')"
    by (auto simp: send_if_new_def split: option.splits prod.splits)
  from sendMessageToClients_shape[of \<beta> a thread m g] s ns show ?thesis by auto
qed

lemma unsent_append:
  "unsent sm (xs @ ys) = unsent sm xs @ unsent (mark_sent sm xs) ys"
  by (induction xs arbitrary: sm) simp_all

lemma fanout_Nil [simp]: "fanout hs [] = []"
  by (simp add: fanout_def)

lemma fanout_Cons [simp]: "fanout hs (m # ms) = map (\<lambda>h. (h, m)) hs @ fanout hs ms"
  by (simp add: fanout_def)

lemma fanout_append: "fanout hs (xs @ ys) = fanout hs xs @ fanout hs ys"
  by (simp add: fanout_def)

lemma forEach_messages_None:
  "forEach_messages \<beta> a thread ms g = (None, g') \<Longrightarrow>
   delivered g' = delivered g @ fanout (handlers_of a thread) (unsent (sentMessages g) ms) \<and>
   sentMessages g' = mark_sent (sentMessages g) ms"
proof (induction ms arbitrary: g)
  case Nil
  then show ?case by simp
next
  case (Cons m ms)
  obtain r g1 where s: "send_if_new \<beta> a thread m g = (r, g1)"
    by (cases "send_if_new \<beta> a thread m g")
  with Cons.prems have r: "r = None" and rest: "forEach_messages \<beta> a thread ms g1 = (None, g')"
    by (auto split: option.splits)
  note ih = Cons.IH[OF rest]
  show ?case
  proof (cases "sent (sentMessages g) (msg_key m)")
    case True
    with s have "g1 = g" by (simp add: send_if_new_def)
    with ih True show ?thesis by simp
  next
    case False
    define sm' where "sm' = (sentMessages g)(msg_key m \<mapsto> True)"
    have d: "delivered g1 = delivered g @ map (\<lambda>h. (h, m)) (handlers_of a thread)"
      and k: "sentMessages g1 = sm'"
      using send_if_new_None[OF s[unfolded r] False] unfolding sm'_def by blast+
    have u: "unsent (sentMessages g) (m # ms) = m # unsent sm' ms"
      and v: "mark_sent (sentMessages g) (m # ms) = mark_sent sm' ms"
      using False by (simp_all add: sm'_def)
    from ih show ?thesis unfolding u v d k by simp
  qed
qed

lemma forEach_messages_Some:
  "forEach_messages \<beta> a thread ms g = (Some e, g') \<Longrightarrow>
   \<exists>ds. delivered g' = delivered g @ ds \<and>
        prefix ds (fanout (handlers_of a thread) (unsent (sentMessages g) ms))"
proof (induction ms arbitrary: g)
  case Nil
  then show ?case by simp
next
  case (Cons m ms)
  obtain r g1 where s: "send_if_new \<beta> a thread m g = (r, g1)"
    by (cases "send_if_new \<beta> a thread m g")
  show ?case
  proof (cases r)
    case (Some e')
    with s Cons.prems have "g' = g1" by simp
    with send_if_new_Some[OF s[unfolded Some]] show ?thesis by auto
  next
    case None
    with s Cons.prems have rest: "forEach_messages \<beta> a thread ms g1 = (Some e, g')" by simp
    from Cons.IH[OF rest] obtain ds where
      ds: "delivered g' = delivered g1 @ ds"
      and p: "prefix ds (fanout (handlers_of a thread) (unsent (sentMessages g1) ms))" by blast
    show ?thesis
    proof (cases "sent (sentMessages g) (msg_key m)")
      case True
      with s have "g1 = g" by (simp add: send_if_new_def)
      with ds p True show ?thesis by simp
    next
      case False
      define sm' where "sm' = (sentMessages g)(msg_key m \<mapsto> True)"
      have d: "delivered g1 = delivered g @ map (\<lambda>h. (h, m)) (handlers_of a thread)"
        and k: "sentMessages g1 = sm'"
        using send_if_new_None[OF s[unfolded None] False] unfolding sm'_def by blast+
      have u: "unsent (sentMessages g) (m # ms) = m # unsent sm' ms"
        using False by (simp add: sm'_def)
      from ds p show ?thesis unfolding u d k by simp
    qed
  qed
qed

subsection \<open>The table of sent keys, and whole streams\<close>

lemma mark_sent_mono: "sent sm k \<Longrightarrow> sent (mark_sent sm ms) k"
  by (induction ms arbitrary: sm) (auto simp: sent_def)

lemma mark_sent_append: "mark_sent sm (xs @ ys) = mark_sent (mark_sent sm xs) ys"
  by (induction xs arbitrary: sm) simp_all

lemma mark_sent_keys: "m \<in> set ms \<Longrightarrow> sent (mark_sent sm ms) (msg_key m)"
proof (induction ms arbitrary: sm)
  case Nil
  then show ?case by simp
next
  case (Cons x xs)
  show ?case
  proof (cases "m = x")
    case True
    have "sent (if sent sm (msg_key x) then sm else sm(msg_key x \<mapsto> True)) (msg_key x)"
      by (simp add: sent_def)
    from mark_sent_mono[OF this] True show ?thesis by simp
  next
    case False
    with Cons.prems have "m \<in> set xs" by simp
    from Cons.IH[OF this] show ?thesis by simp
  qed
qed

lemma set_unsent: "set (unsent sm ms) \<subseteq> set ms"
  by (induction ms arbitrary: sm) auto



lemma forEach_messages_sent_mono:
  "sent (sentMessages g) k \<Longrightarrow> sent (sentMessages (snd (forEach_messages \<beta> a thread ms g))) k"
proof (induction ms arbitrary: g)
  case Nil
  then show ?case by simp
next
  case (Cons m ms)
  obtain r g1 where s: "send_if_new \<beta> a thread m g = (r, g1)"
    by (cases "send_if_new \<beta> a thread m g")
  have k1: "sent (sentMessages g1) k"
  proof (cases r)
    case None
    show ?thesis
    proof (cases "sent (sentMessages g) (msg_key m)")
      case True
      with s have "g1 = g" by (simp add: send_if_new_def)
      with Cons.prems show ?thesis by simp
    next
      case False
      from send_if_new_None(2)[OF s[unfolded None] False] Cons.prems show ?thesis
        by (simp add: sent_def)
    qed
  next
    case (Some e)
    from send_if_new_Some[OF s[unfolded Some]] Cons.prems show ?thesis by auto
  qed
  show ?case
  proof (cases r)
    case None
    with s Cons.IH[OF k1] show ?thesis by simp
  next
    case (Some e)
    with s k1 show ?thesis by simp
  qed
qed

lemma process_chunk_None:
  "process_chunk \<beta> a thread c g = (None, g') \<Longrightarrow>
   delivered g' = delivered g @ fanout (handlers_of a thread)
       (unsent (sentMessages g) (case messages c of None \<Rightarrow> [] | Some ms \<Rightarrow> ms)) \<and>
   sentMessages g' = mark_sent (sentMessages g) (case messages c of None \<Rightarrow> [] | Some ms \<Rightarrow> ms)"
  using forEach_messages_None[of \<beta> a thread _ g g']
  by (cases "messages c") (simp_all add: process_chunk_def)

lemma process_chunk_Some:
  "process_chunk \<beta> a thread c g = (Some e, g') \<Longrightarrow>
   \<exists>ds. delivered g' = delivered g @ ds \<and>
        prefix ds (fanout (handlers_of a thread)
          (unsent (sentMessages g) (case messages c of None \<Rightarrow> [] | Some ms \<Rightarrow> ms)))"
  using forEach_messages_Some[of \<beta> a thread _ g e g']
  by (cases "messages c") (simp_all add: process_chunk_def)

lemma process_chunk_sent_mono:
  "sent (sentMessages g) k \<Longrightarrow> sent (sentMessages (snd (process_chunk \<beta> a thread c g))) k"
  using forEach_messages_sent_mono[of g k \<beta> a thread]
  by (cases "messages c") (simp_all add: process_chunk_def)

lemma messageReceived_None:
  "messageReceived \<beta> a thread s g = (None, g') \<Longrightarrow>
   delivered g' = delivered g @ fanout (handlers_of a thread)
       (unsent (sentMessages g) (stream_messages s)) \<and>
   sentMessages g' = mark_sent (sentMessages g) (stream_messages s)"
proof (induction s arbitrary: g)
  case End
  then show ?case by simp
next
  case (Raise e)
  then show ?case by simp
next
  case (Yield c s)
  obtain r g1 where p: "process_chunk \<beta> a thread c g = (r, g1)"
    by (cases "process_chunk \<beta> a thread c g")
  with Yield.prems have r: "r = None" and rest: "messageReceived \<beta> a thread s g1 = (None, g')"
    by (auto split: option.splits)
  from process_chunk_None[OF p[unfolded r]] Yield.IH[OF rest] show ?case
    by (simp add: unsent_append mark_sent_append fanout_append)
qed

lemma messageReceived_Some:
  "messageReceived \<beta> a thread s g = (Some e, g') \<Longrightarrow>
   \<exists>ds. delivered g' = delivered g @ ds \<and>
        prefix ds (fanout (handlers_of a thread) (unsent (sentMessages g) (stream_messages s)))"
proof (induction s arbitrary: g)
  case End
  then show ?case by simp
next
  case (Raise e)
  then show ?case by simp
next
  case (Yield c s)
  obtain r g1 where p: "process_chunk \<beta> a thread c g = (r, g1)"
    by (cases "process_chunk \<beta> a thread c g")
  show ?case
  proof (cases r)
    case (Some e')
    with p Yield.prems have "g' = g1" by simp
    with process_chunk_Some[OF p[unfolded Some]] show ?thesis
      by (auto simp: unsent_append fanout_append)
  next
    case None
    with p Yield.prems have rest: "messageReceived \<beta> a thread s g1 = (Some e, g')" by simp
    from Yield.IH[OF rest] process_chunk_None[OF p[unfolded None]] show ?thesis
      by (auto simp: unsent_append fanout_append)
  qed
qed

lemma messageReceived_sent_mono:
  "sent (sentMessages g) k \<Longrightarrow> sent (sentMessages (snd (messageReceived \<beta> a thread s g))) k"
proof (induction s arbitrary: g)
  case End
  then show ?case by simp
next
  case (Raise e)
  then show ?case by simp
next
  case (Yield c s)
  obtain r g1 where p: "process_chunk \<beta> a thread c g = (r, g1)"
    by (cases "process_chunk \<beta> a thread c g")
  from process_chunk_sent_mono[OF Yield.prems, of \<beta> a thread c] p
  have k1: "sent (sentMessages g1) k" by simp
  show ?case
  proof (cases r)
    case None
    with p Yield.IH[OF k1] show ?thesis by simp
  next
    case (Some e)
    with p k1 show ?thesis by simp
  qed
qed

subsection \<open>Handlers that do not throw\<close>

lemma send_if_new_ok:
  assumes "\<forall>h \<in> set (handlers_of a thread). \<not> \<beta> h m" and "lookup a thread \<noteq> Inherited"
  shows "fst (send_if_new \<beta> a thread m g) = None"
  using sendMessageToClients_ok[where \<beta>=\<beta> and m=m and g=g, OF assms]
  by (simp add: send_if_new_def)

lemma forEach_messages_ok:
  assumes "lookup a thread \<noteq> Inherited"
  shows "\<forall>h \<in> set (handlers_of a thread). \<forall>m \<in> set (unsent (sentMessages g) ms). \<not> \<beta> h m \<Longrightarrow>
         fst (forEach_messages \<beta> a thread ms g) = None"
proof (induction ms arbitrary: g)
  case Nil
  show ?case by simp
next
  case (Cons m ms)
  show ?case
  proof (cases "sent (sentMessages g) (msg_key m)")
    case True
    then have s: "send_if_new \<beta> a thread m g = (None, g)" by (rule send_if_new_sent)
    from Cons.prems True have "\<forall>h \<in> set (handlers_of a thread). \<forall>m \<in> set (unsent (sentMessages g) ms). \<not> \<beta> h m"
      by simp
    from Cons.IH[OF this] s show ?thesis by simp
  next
    case False
    define sm' where "sm' = (sentMessages g)(msg_key m \<mapsto> True)"
    have u: "unsent (sentMessages g) (m # ms) = m # unsent sm' ms"
      using False by (simp add: sm'_def)
    from Cons.prems have nt: "\<forall>h \<in> set (handlers_of a thread). \<not> \<beta> h m"
      and rest: "\<forall>h \<in> set (handlers_of a thread). \<forall>x \<in> set (unsent sm' ms). \<not> \<beta> h x"
      unfolding u by simp_all
    obtain r g1 where s: "send_if_new \<beta> a thread m g = (r, g1)"
      by (cases "send_if_new \<beta> a thread m g")
    from send_if_new_ok[where \<beta>=\<beta> and m=m and g=g, OF nt assms] s have r: "r = None" by simp
    have k: "sentMessages g1 = sm'"
      using send_if_new_None(2)[OF s[unfolded r] False] unfolding sm'_def .
    from rest have "\<forall>h \<in> set (handlers_of a thread). \<forall>x \<in> set (unsent (sentMessages g1) ms). \<not> \<beta> h x"
      unfolding k .
    from Cons.IH[OF this] s r show ?thesis by simp
  qed
qed

lemma messageReceived_ok:
  assumes "lookup a thread \<noteq> Inherited"
  shows "\<forall>h \<in> set (handlers_of a thread). \<forall>m \<in> set (unsent (sentMessages g) (stream_messages s)). \<not> \<beta> h m \<Longrightarrow>
     delivered (snd (messageReceived \<beta> a thread s g)) =
       delivered g @ fanout (handlers_of a thread) (unsent (sentMessages g) (stream_messages s)) \<and>
     sentMessages (snd (messageReceived \<beta> a thread s g)) = mark_sent (sentMessages g) (stream_messages s) \<and>
     (case fst (messageReceived \<beta> a thread s g) of None \<Rightarrow> True | Some e \<Rightarrow> \<exists>x. e = AgentError x)"
proof (induction s arbitrary: g)
  case End
  show ?case by simp
next
  case (Raise e)
  show ?case by simp
next
  case (Yield c s)
  define ms where "ms = (case messages c of None \<Rightarrow> [] | Some ms \<Rightarrow> ms)"
  have sm: "stream_messages (Yield c s) = ms @ stream_messages s"
    by (simp add: ms_def)
  have pc: "process_chunk \<beta> a thread c g = forEach_messages \<beta> a thread ms g"
    by (cases "messages c") (simp_all add: process_chunk_def ms_def)
  from Yield.prems have nt1: "\<forall>h \<in> set (handlers_of a thread). \<forall>m \<in> set (unsent (sentMessages g) ms). \<not> \<beta> h m"
    and nt2: "\<forall>h \<in> set (handlers_of a thread). \<forall>m \<in> set (unsent (mark_sent (sentMessages g) ms) (stream_messages s)). \<not> \<beta> h m"
    unfolding sm unsent_append by simp_all
  obtain r g1 where p: "forEach_messages \<beta> a thread ms g = (r, g1)"
    by (cases "forEach_messages \<beta> a thread ms g")
  from forEach_messages_ok[where \<beta>=\<beta>, OF assms nt1] p have r: "r = None" by simp
  from forEach_messages_None[OF p[unfolded r]]
  have d: "delivered g1 = delivered g @ fanout (handlers_of a thread) (unsent (sentMessages g) ms)"
    and k: "sentMessages g1 = mark_sent (sentMessages g) ms" by blast+
  from nt2 have "\<forall>h \<in> set (handlers_of a thread). \<forall>m \<in> set (unsent (sentMessages g1) (stream_messages s)). \<not> \<beta> h m"
    unfolding k .
  note ih = Yield.IH[OF this]
  have mr: "messageReceived \<beta> a thread (Yield c s) g = messageReceived \<beta> a thread s g1"
    using p r pc by simp
  show ?case
    unfolding mr sm using ih
    by (simp add: d k unsent_append mark_sent_append fanout_append)
qed

lemma inherited_no_handlers: "lookup a thread = Inherited \<Longrightarrow> handlers_of a thread = []"
  by (simp add: handlers_of_def)

lemma fanout_no_handlers [simp]: "fanout [] ms = []"
  by (simp add: fanout_def)

lemma messageReceived_log:
  "\<exists>ds. delivered (snd (messageReceived \<beta> a thread s g)) = delivered g @ ds \<and>
        prefix ds (fanout (handlers_of a thread) (unsent (sentMessages g) (stream_messages s)))"
proof (cases "messageReceived \<beta> a thread s g")
  case (Pair r g')
  show ?thesis
  proof (cases r)
    case None
    with Pair messageReceived_None[of \<beta> a thread s g g'] show ?thesis by simp
  next
    case (Some e)
    with Pair messageReceived_Some[of \<beta> a thread s g e g'] show ?thesis by simp
  qed
qed

lemma received_by_fanout_once:
  "count_list hs h = 1 \<Longrightarrow> received_by h (fanout hs ms) = ms"
proof (induction ms)
  case Nil
  show ?case by (simp add: received_by_def)
next
  case (Cons m ms)
  have one: "count_list hs h = 1 \<Longrightarrow> map snd (filter (\<lambda>d. fst d = h) (map (\<lambda>x. (x, m)) hs)) = [m]" for hs
    by (induction hs) (auto simp: filter_empty_conv count_list_0_iff split: if_splits)
  from Cons one[OF Cons.prems] show ?case by (simp add: received_by_def)
qed

lemma received_by_prefix:
  "prefix ds es \<Longrightarrow> prefix (received_by h ds) (received_by h es)"
  by (auto simp: received_by_def prefix_def)

subsection \<open>Streams in two parts; registering and removing handlers\<close>

lemma messageReceived_yields:
  "messageReceived \<beta> a thread (yields cs s) g =
     (case messageReceived \<beta> a thread (yields cs End) g of
        (Some e, g') \<Rightarrow> (Some e, g')
      | (None, g') \<Rightarrow> messageReceived \<beta> a thread s g')"
proof (induction cs arbitrary: g)
  case Nil
  show ?case by simp
next
  case (Cons c cs)
  show ?case
  proof (cases "process_chunk \<beta> a thread c g")
    case (Pair r g1)
    then show ?thesis using Cons.IH[of g1] by (cases r) simp_all
  qed
qed

lemma register_handlers_of:
  "registerNewMessageHandler h uuid a = Inr a' \<Longrightarrow>
   lookup a' uuid = Handlers (handlers_of a uuid @ [h])"
  by (cases "lookup a uuid")
     (auto simp: registerNewMessageHandler_def handlers_of_def lookup_def split: if_splits)

lemma register_frame:
  "registerNewMessageHandler h uuid a = Inr a' \<Longrightarrow> t \<noteq> uuid \<Longrightarrow> lookup a' t = lookup a t"
  by (cases "lookup a uuid")
     (auto simp: registerNewMessageHandler_def lookup_def split: if_splits)

lemma register_regular:
  "uuid \<notin> set object_prototype_keys \<Longrightarrow> \<exists>a'. registerNewMessageHandler h uuid a = Inr a'"
  by (cases "messagesHandlers a uuid") (simp_all add: registerNewMessageHandler_def lookup_def)


lemma unregister_frame:
  "unregisterNewMessageHandler uuid h a = Inr a' \<Longrightarrow> t \<noteq> uuid \<Longrightarrow> lookup a' t = lookup a t"
  by (cases "lookup a uuid")
     (auto simp: unregisterNewMessageHandler_def lookup_def split: if_splits)

lemma unregister_Handlers:
  "lookup a uuid = Handlers hs \<Longrightarrow>
   \<exists>a'. unregisterNewMessageHandler uuid h a = Inr a' \<and> lookup a' uuid = Handlers (filter (\<lambda>x. x \<noteq> h) hs)"
  by (auto simp: unregisterNewMessageHandler_def lookup_def split: if_splits option.splits)

lemma unregister_absent:
  "lookup a uuid = Handlers hs \<Longrightarrow> h \<notin> set hs \<Longrightarrow> unregisterNewMessageHandler uuid h a = Inr a"
proof -
  assume l: "lookup a uuid = Handlers hs" and n: "h \<notin> set hs"
  from n have f: "filter (\<lambda>x. x \<noteq> h) hs = hs" by (induction hs) auto
  from l have "messagesHandlers a uuid = Some hs"
    by (auto simp: lookup_def split: if_splits option.splits)
  then have "(messagesHandlers a)(uuid \<mapsto> hs) = messagesHandlers a" by (rule map_upd_triv)
  with l f show ?thesis by (simp add: unregisterNewMessageHandler_def)
qed

lemma lookup_Inherited: "lookup a uuid = Inherited \<longleftrightarrow> uuid \<in> set object_prototype_keys"
  by (simp add: lookup_def split: option.splits)

lemma count_list_filter_other: "x \<noteq> h \<Longrightarrow> count_list (filter (\<lambda>y. y \<noteq> h) hs) x = count_list hs x"
  by (induction hs) auto

subsection \<open>Runs: the sent keys only grow, and the log stays free of repetitions\<close>

lemma step_Subscribe_shared [simp]: "shared (step \<beta> (Subscribe i h u) s) = shared s"
  by (cases "registerNewMessageHandler h u (agents s i)") simp_all

lemma step_Unsubscribe_shared [simp]: "shared (step \<beta> (Unsubscribe i u h) s) = shared s"
  by (cases "unregisterNewMessageHandler u h (agents s i)") simp_all

lemma step_sent_mono:
  "sent (sentMessages (shared s)) k \<Longrightarrow> sent (sentMessages (shared (step \<beta> ev s))) k"
  by (cases ev) (auto simp: process_chunk_sent_mono split: sum.splits)

lemma run_sent_mono:
  "sent (sentMessages (shared s)) k \<Longrightarrow> sent (sentMessages (shared (run \<beta> evs s))) k"
  by (induction evs arbitrary: s) (simp_all add: step_sent_mono)


lemma log_keys_append [simp]: "log_keys (xs @ ys) = log_keys xs @ log_keys ys"
  by (simp add: log_keys_def)












lemma forEach_messages_append:
  "forEach_messages \<beta> a thread (xs @ ys) g =
     (case forEach_messages \<beta> a thread xs g of
        (Some e, g') \<Rightarrow> (Some e, g')
      | (None, g') \<Rightarrow> forEach_messages \<beta> a thread ys g')"
proof (induction xs arbitrary: g)
  case Nil
  show ?case by simp
next
  case (Cons x xs)
  show ?case
  proof (cases "send_if_new \<beta> a thread x g")
    case (Pair r g1)
    then show ?thesis using Cons.IH[of g1] by (cases r) simp_all
  qed
qed







lemma process_chunk_records:
  assumes "process_chunk \<beta> a thread c g = (None, g')" and "messages c = Some ms" and "m \<in> set ms"
  shows "sent (sentMessages g') (msg_key m)"
proof -
  from process_chunk_None[OF assms(1)] assms(2)
  have "sentMessages g' = mark_sent (sentMessages g) ms" by simp
  with mark_sent_keys[OF assms(3)] show ?thesis by simp
qed

subsection \<open>The example inputs, evaluated\<close>

lemmas example_defs =
  default_thread_def with_id_def no_id_def polite_def first_throws_def three_snapshots_def
  late_subscriber_def two_clients_def new_system_def new_agent_def new_globals_def
  coming_and_going_def registered_twice_def two_agents_def second_throws_def
  second_rejects_def three_clients_def interleaved_turns_def elsewhere_first_def
  elsewhere_second_def same_id_on_two_threads_def no_id_on_two_threads_def
  before_second_snapshot_def before_third_snapshot_def

lemmas operation_defs =
  registerNewMessageHandler_def unregisterNewMessageHandler_def lookup_def handlers_of_def
  object_prototype_keys_def process_chunk_def send_if_new_def sendMessageToClients_def
  sent_def msg_key_def Let_def

lemma two_clients_handlers: "lookup two_clients default_thread = Handlers [1, 2]"
  by (simp add: example_defs operation_defs)

lemma late_subscriber_handlers: "lookup (agents late_subscriber 0) default_thread = Handlers [7]"
  by (simp add: example_defs operation_defs)

lemma late_subscriber_log: "delivered (shared late_subscriber) = []"
  by (simp add: example_defs operation_defs)

lemma three_clients_handlers: "lookup three_clients default_thread = Handlers [1, 2, 3]"
  by (simp add: example_defs operation_defs)

lemma two_agents_handlers: "lookup (agents two_agents 0) default_thread = Handlers [1]"
  by (simp add: example_defs operation_defs)

lemma one_new_message:
  assumes l: "lookup a thread = Handlers [h]"
    and q: "\<not> \<beta> h m"
    and old: "\<forall>x \<in> set before. sent (sentMessages g) (msg_key x)"
    and new: "\<not> sent (sentMessages g) (msg_key m)"
  shows "fst (process_chunk \<beta> a thread \<lparr>messages = Some (before @ [m])\<rparr> g) = None"
    and "delivered (snd (process_chunk \<beta> a thread \<lparr>messages = Some (before @ [m])\<rparr> g)) =
           delivered g @ [(h, m)]"
    and "\<forall>x \<in> set (before @ [m]).
           sent (sentMessages (snd (process_chunk \<beta> a thread \<lparr>messages = Some (before @ [m])\<rparr> g)))
             (msg_key x)"
proof -
  let ?c = "\<lparr>messages = Some (before @ [m])\<rparr>"
  have u: "unsent (sentMessages g) (before @ [m]) = [m]"
    using old new by (induction before) simp_all
  have hs: "handlers_of a thread = [h]" using l by (simp add: handlers_of_def)
  have ni: "lookup a thread \<noteq> Inherited" using l by simp
  have nt: "\<forall>x \<in> set (handlers_of a thread). \<forall>y \<in> set (unsent (sentMessages g) (before @ [m])). \<not> \<beta> x y"
    unfolding u hs using q by simp
  have pc: "process_chunk \<beta> a thread ?c g = forEach_messages \<beta> a thread (before @ [m]) g"
    by (simp add: process_chunk_def)
  from forEach_messages_ok[where \<beta>=\<beta>, OF ni nt] pc
  show f: "fst (process_chunk \<beta> a thread ?c g) = None" by simp
  then have e: "process_chunk \<beta> a thread ?c g = (None, snd (process_chunk \<beta> a thread ?c g))"
    by (metis prod.collapse)
  from process_chunk_None[OF e] u hs
  show "delivered (snd (process_chunk \<beta> a thread ?c g)) = delivered g @ [(h, m)]" by simp
  show "\<forall>x \<in> set (before @ [m]). sent (sentMessages (snd (process_chunk \<beta> a thread ?c g))) (msg_key x)"
    using process_chunk_records[OF e, of "before @ [m]"] by simp
qed

section \<open>The claims\<close>

text \<open>
  Claim C1, amended. The three cumulative snapshots of one call are processed one after
  the other, with any events of other calls between them. If at each snapshot the array
  of the thread holds one handler, which does not throw, if the three keys differ, and
  if the key of each message does not read as sent when the snapshot that first carries
  it is processed, then the first snapshot calls the handler with the first message
  only, the second with the second only, the third with the third only, and none of
  them fails. When nothing happens between the snapshots this is the call of
  \<open>messageReceived\<close> on the stream of the three snapshots: it completes without error and
  adds to the log exactly the three calls, in that order.
\<close>

theorem three_snapshots_delivered_once:
  assumes "distinct [msg_key m1, msg_key m2, msg_key m3]"
    and "\<not> \<beta> h m1" and "\<not> \<beta> h m2" and "\<not> \<beta> h m3"
    and "sa = run \<beta> evsa (step \<beta> (Snapshot i thread \<lparr>messages = Some [m1]\<rparr>) s)"
    and "sb = run \<beta> evsb (step \<beta> (Snapshot i thread \<lparr>messages = Some [m1, m2]\<rparr>) sa)"
    and "lookup (agents s i) thread = Handlers [h]"
    and "lookup (agents sa i) thread = Handlers [h]"
    and "lookup (agents sb i) thread = Handlers [h]"
    and "\<not> sent (sentMessages (shared s)) (msg_key m1)"
    and "\<not> sent (sentMessages (shared sa)) (msg_key m2)"
    and "\<not> sent (sentMessages (shared sb)) (msg_key m3)"
  shows "fst (process_chunk \<beta> (agents s i) thread \<lparr>messages = Some [m1]\<rparr> (shared s)) = None \<and>
         delivered (snd (process_chunk \<beta> (agents s i) thread \<lparr>messages = Some [m1]\<rparr> (shared s))) =
           delivered (shared s) @ [(h, m1)] \<and>
         fst (process_chunk \<beta> (agents sa i) thread \<lparr>messages = Some [m1, m2]\<rparr> (shared sa)) = None \<and>
         delivered (snd (process_chunk \<beta> (agents sa i) thread \<lparr>messages = Some [m1, m2]\<rparr> (shared sa))) =
           delivered (shared sa) @ [(h, m2)] \<and>
         fst (process_chunk \<beta> (agents sb i) thread \<lparr>messages = Some [m1, m2, m3]\<rparr> (shared sb)) = None \<and>
         delivered (snd (process_chunk \<beta> (agents sb i) thread \<lparr>messages = Some [m1, m2, m3]\<rparr> (shared sb))) =
           delivered (shared sb) @ [(h, m3)] \<and>
         (evsa = [] \<and> evsb = [] \<longrightarrow>
            fst (messageReceived \<beta> (agents s i) thread (three_snapshots m1 m2 m3) (shared s)) = None \<and>
            delivered (snd (messageReceived \<beta> (agents s i) thread (three_snapshots m1 m2 m3) (shared s))) =
              delivered (shared s) @ [(h, m1), (h, m2), (h, m3)])"
proof -
  let ?c1 = "\<lparr>messages = Some [m1]\<rparr>"
  let ?c2 = "\<lparr>messages = Some [m1, m2]\<rparr>"
  let ?c3 = "\<lparr>messages = Some [m1, m2, m3]\<rparr>"
  let ?p1 = "process_chunk \<beta> (agents s i) thread ?c1 (shared s)"
  let ?p2 = "process_chunk \<beta> (agents sa i) thread ?c2 (shared sa)"
  let ?p3 = "process_chunk \<beta> (agents sb i) thread ?c3 (shared sb)"
  have e: "\<forall>x \<in> set []. sent (sentMessages (shared s)) (msg_key x)" by simp
  from one_new_message[where \<beta>=\<beta> and before="[]", OF assms(7) assms(2) e assms(10)]
  have f1: "fst ?p1 = None" and d1: "delivered (snd ?p1) = delivered (shared s) @ [(h, m1)]"
    and k1: "sent (sentMessages (snd ?p1)) (msg_key m1)" by simp_all
  have sh1: "shared (step \<beta> (Snapshot i thread ?c1) s) = snd ?p1" by simp
  have a1: "sent (sentMessages (shared sa)) (msg_key m1)"
    unfolding assms(5) using k1 sh1 run_sent_mono by metis
  have o2: "\<forall>x \<in> set [m1]. sent (sentMessages (shared sa)) (msg_key x)" using a1 by simp
  from one_new_message[where \<beta>=\<beta> and before="[m1]", OF assms(8) assms(3) o2 assms(11)]
  have f2: "fst ?p2 = None" and d2: "delivered (snd ?p2) = delivered (shared sa) @ [(h, m2)]"
    and k2: "sent (sentMessages (snd ?p2)) (msg_key m1)" "sent (sentMessages (snd ?p2)) (msg_key m2)"
    by simp_all
  have sh2: "shared (step \<beta> (Snapshot i thread ?c2) sa) = snd ?p2" by simp
  have b1: "sent (sentMessages (shared sb)) (msg_key m1)"
    and b2: "sent (sentMessages (shared sb)) (msg_key m2)"
    unfolding assms(6) using k2 sh2 run_sent_mono by metis+
  have o3: "\<forall>x \<in> set [m1, m2]. sent (sentMessages (shared sb)) (msg_key x)" using b1 b2 by simp
  from one_new_message[where \<beta>=\<beta> and before="[m1, m2]", OF assms(9) assms(4) o3 assms(12)]
  have f3: "fst ?p3 = None" and d3: "delivered (snd ?p3) = delivered (shared sb) @ [(h, m3)]"
    by simp_all
  have alone: "fst (messageReceived \<beta> (agents s i) thread (three_snapshots m1 m2 m3) (shared s)) = None \<and>
      delivered (snd (messageReceived \<beta> (agents s i) thread (three_snapshots m1 m2 m3) (shared s))) =
        delivered (shared s) @ [(h, m1), (h, m2), (h, m3)]"
    if n: "evsa = [] \<and> evsb = []"
  proof -
    from n assms(5) have sa: "agents sa = agents s" "shared sa = snd ?p1" by simp_all
    from n assms(6) have sb: "agents sb = agents s" "shared sb = snd ?p2" by (simp_all add: sa)
    from f1 have e1: "?p1 = (None, shared sa)" unfolding sa by (metis prod.collapse)
    from f2 have e2: "process_chunk \<beta> (agents s i) thread ?c2 (shared sa) = (None, shared sb)"
      unfolding sb sa by (metis prod.collapse)
    from f3 have e3: "process_chunk \<beta> (agents s i) thread ?c3 (shared sb) = (None, snd ?p3)"
      unfolding sb(1) by (metis prod.collapse)
    have "messageReceived \<beta> (agents s i) thread (three_snapshots m1 m2 m3) (shared s) = (None, snd ?p3)"
      by (simp add: three_snapshots_def e1 e2 e3)
    with d3 d2 d1 sa sb show ?thesis by simp
  qed
  from f1 d1 f2 d2 f3 d3 alone show ?thesis by blast
qed

theorem three_snapshots_delivered_once_witness:
  "lookup (agents two_agents 0) default_thread = Handlers [1] \<and>
   lookup (agents before_second_snapshot 0) default_thread = Handlers [1] \<and>
   lookup (agents before_third_snapshot 0) default_thread = Handlers [1] \<and>
   \<not> sent (sentMessages (shared two_agents)) (msg_key (with_id ''m1'')) \<and>
   \<not> sent (sentMessages (shared before_second_snapshot)) (msg_key (with_id ''m2'')) \<and>
   \<not> sent (sentMessages (shared before_third_snapshot)) (msg_key (with_id ''m3'')) \<and>
   delivered (shared before_third_snapshot) =
     [(1, with_id ''m1''), (5, with_id ''z1''), (1, with_id ''m2'')] \<and>
   delivered (snd (process_chunk polite (agents before_third_snapshot 0) default_thread
      \<lparr>messages = Some [with_id ''m1'', with_id ''m2'', with_id ''m3'']\<rparr>
      (shared before_third_snapshot))) =
     [(1, with_id ''m1''), (5, with_id ''z1''), (1, with_id ''m2''), (1, with_id ''m3'')] \<and>
   fst (messageReceived polite (agents two_agents 0) default_thread
      (three_snapshots (with_id ''m1'') (with_id ''m2'') (with_id ''m3'')) (shared two_agents)) = None \<and>
   delivered (snd (messageReceived polite (agents two_agents 0) default_thread
      (three_snapshots (with_id ''m1'') (with_id ''m2'') (with_id ''m3'')) (shared two_agents))) =
     [(1, with_id ''m1''), (1, with_id ''m2''), (1, with_id ''m3'')]"
proof -
  let ?m1 = "with_id ''m1''" and ?m2 = "with_id ''m2''" and ?m3 = "with_id ''m3''"
  have k: "distinct [msg_key ?m1, msg_key ?m2, msg_key ?m3]"
    by (simp add: with_id_def msg_key_def)
  have p: "\<not> polite 1 m" for m by (simp add: polite_def)
  have l0: "lookup (agents two_agents 0) default_thread = Handlers [1]"
    by (rule two_agents_handlers)
  have la: "lookup (agents before_second_snapshot 0) default_thread = Handlers [1]"
    by (simp add: example_defs operation_defs)
  have lb: "lookup (agents before_third_snapshot 0) default_thread = Handlers [1]"
    by (simp add: example_defs operation_defs)
  have n1: "\<not> sent (sentMessages (shared two_agents)) (msg_key ?m1)"
    by (simp add: example_defs operation_defs)
  have n2: "\<not> sent (sentMessages (shared before_second_snapshot)) (msg_key ?m2)"
    by (simp add: example_defs operation_defs)
  have n3: "\<not> sent (sentMessages (shared before_third_snapshot)) (msg_key ?m3)"
    by (simp add: example_defs operation_defs)
  have d: "delivered (shared before_third_snapshot) = [(1, ?m1), (5, with_id ''z1''), (1, ?m2)]"
    by (simp add: example_defs operation_defs)
  have l0': "lookup (agents (step polite (Snapshot 0 default_thread \<lparr>messages = Some [?m1]\<rparr>) two_agents) 0)
      default_thread = Handlers [1]"
    using l0 by simp
  have l0'': "lookup (agents (step polite (Snapshot 0 default_thread \<lparr>messages = Some [?m1, ?m2]\<rparr>)
      (step polite (Snapshot 0 default_thread \<lparr>messages = Some [?m1]\<rparr>) two_agents)) 0)
      default_thread = Handlers [1]"
    using l0 by simp
  have n2': "\<not> sent (sentMessages (shared (step polite (Snapshot 0 default_thread \<lparr>messages = Some [?m1]\<rparr>)
      two_agents))) (msg_key ?m2)"
    by (simp add: example_defs operation_defs)
  have n3': "\<not> sent (sentMessages (shared (step polite (Snapshot 0 default_thread \<lparr>messages = Some [?m1, ?m2]\<rparr>)
      (step polite (Snapshot 0 default_thread \<lparr>messages = Some [?m1]\<rparr>) two_agents)))) (msg_key ?m3)"
    by (simp add: example_defs operation_defs)
  from three_snapshots_delivered_once[where \<beta>=polite and evsa=elsewhere_first
      and evsb=elsewhere_second, OF k p p p before_second_snapshot_def before_third_snapshot_def
      l0 la lb n1 n2 n3]
  have among: "delivered (snd (process_chunk polite (agents before_third_snapshot 0) default_thread
      \<lparr>messages = Some [?m1, ?m2, ?m3]\<rparr> (shared before_third_snapshot))) =
      delivered (shared before_third_snapshot) @ [(1, ?m3)]"
    by blast
  from three_snapshots_delivered_once[where \<beta>=polite and evsa="[]" and evsb="[]"
      and s=two_agents and i=0 and thread=default_thread and ?m1.0="?m1" and ?m2.0="?m2"
      and ?m3.0="?m3" and h=1, OF k p p p _ _ l0 _ _ n1]
    l0' l0'' n2' n3'
  have alone: "fst (messageReceived polite (agents two_agents 0) default_thread
      (three_snapshots ?m1 ?m2 ?m3) (shared two_agents)) = None \<and>
    delivered (snd (messageReceived polite (agents two_agents 0) default_thread
      (three_snapshots ?m1 ?m2 ?m3) (shared two_agents))) =
      delivered (shared two_agents) @ [(1, ?m1), (1, ?m2), (1, ?m3)]"
    by simp
  have e: "delivered (shared two_agents) = []"
    by (simp add: example_defs operation_defs)
  from l0 la lb n1 n2 n3 d among alone e show ?thesis by simp
qed

text \<open>
  The claim as it is written fails in three ways. A key already recorded: the first
  message was processed while nobody listened, so the handler registered afterwards
  receives the second and the third message only. A key recorded between the snapshots:
  a turn on another thread carries the second message first, so the handler receives
  the first and the third only. A key that is an inherited name: the message with id
  \<open>constructor\<close> reads as sent from the start.
\<close>

theorem three_snapshots_counterexample:
  "lookup (agents late_subscriber 0) default_thread = Handlers [7] \<and>
   received_by 7 (delivered (snd (messageReceived polite (agents late_subscriber 0) default_thread
         (three_snapshots (with_id ''m1'') (with_id ''m2'') (with_id ''m3''))
         (shared late_subscriber)))) = [with_id ''m2'', with_id ''m3''] \<and>
   received_by 7 (delivered (snd (messageReceived polite (agents late_subscriber 0) default_thread
         (three_snapshots (with_id ''m1'') (with_id ''m2'') (with_id ''m3''))
         (shared late_subscriber)))) \<noteq> [with_id ''m1'', with_id ''m2'', with_id ''m3''] \<and>
   received_by 1 (delivered (shared (run polite interleaved_turns new_system))) =
     [with_id ''m1'', with_id ''m3''] \<and>
   received_by 1 (delivered (snd (messageReceived polite (agents two_agents 0) default_thread
         (three_snapshots (with_id ''constructor'') (with_id ''m2'') (with_id ''m3''))
         (shared two_agents)))) = [with_id ''m2'', with_id ''m3'']"
  by (simp add: example_defs operation_defs received_by_def)




text \<open>
  Claim C3, amended. Take any place in a turn: the chunks \<open>cs\<close> and, in the next chunk,
  the messages \<open>before\<close> have been processed without error, and the next message of that
  chunk does not read as sent. When the callback of a handler throws on it, the handlers
  before that one in the array have been called with the message, it has been called,
  and no handler after it is called; the exception leaves \<open>_sendMessageToClients\<close> and
  rejects the call of \<open>messageReceived\<close>, whose remaining messages and chunks are not
  processed; the key of the message is not recorded.
\<close>

theorem throwing_handler_aborts_turn:
  assumes "lookup a thread = Handlers (pre @ h # post)"
    and "\<forall>x \<in> set pre. \<not> \<beta> x m"
    and "\<beta> h m"
    and "messageReceived \<beta> a thread (yields cs (Yield \<lparr>messages = Some before\<rparr> End)) g = (None, g')"
    and "\<not> sent (sentMessages g') (msg_key m)"
  shows "sendMessageToClients \<beta> a thread m g' =
           (Some (SinkError h), g'\<lparr>delivered := delivered g' @ map (\<lambda>x. (x, m)) (pre @ [h])\<rparr>) \<and>
         messageReceived \<beta> a thread
             (yields cs (Yield \<lparr>messages = Some (before @ m # rest)\<rparr> s)) g =
           (Some (SinkError h), g'\<lparr>delivered := delivered g' @ map (\<lambda>x. (x, m)) (pre @ [h])\<rparr>)"
proof -
  let ?g'' = "g'\<lparr>delivered := delivered g' @ map (\<lambda>x. (x, m)) (pre @ [h])\<rparr>"
  have c: "sendMessageToClients \<beta> a thread m g' = (Some (SinkError h), ?g'')"
    using forEach_handlers_throw[where \<beta>=\<beta> and pre=pre and h=h and m=m and g=g' and post=post]
      assms(1,2,3)
    by (simp add: sendMessageToClients_def)
  then have one: "send_if_new \<beta> a thread m g' = (Some (SinkError h), ?g'')"
    using assms(5) by (simp add: send_if_new_def)
  obtain r0 g0 where p0: "messageReceived \<beta> a thread (yields cs End) g = (r0, g0)"
    by (cases "messageReceived \<beta> a thread (yields cs End) g")
  from assms(4) p0 have r0: "r0 = None"
    by (cases r0) (simp_all add: messageReceived_yields[where s="Yield \<lparr>messages = Some before\<rparr> End"])
  from assms(4) p0 r0 have b: "forEach_messages \<beta> a thread before g0 = (None, g')"
    by (simp add: messageReceived_yields[where s="Yield \<lparr>messages = Some before\<rparr> End"]
        process_chunk_def split: prod.splits option.splits)
  have "forEach_messages \<beta> a thread (before @ m # rest) g0 = (Some (SinkError h), ?g'')"
    using b one by (simp add: forEach_messages_append)
  then have "messageReceived \<beta> a thread (yields cs (Yield \<lparr>messages = Some (before @ m # rest)\<rparr> s)) g =
      (Some (SinkError h), ?g'')"
    using p0 r0
    by (simp add: messageReceived_yields[where s="Yield \<lparr>messages = Some (before @ m # rest)\<rparr> s"]
        process_chunk_def)
  with c show ?thesis by simp
qed

theorem throwing_handler_aborts_turn_witness:
  "lookup three_clients default_thread = Handlers ([1] @ 2 # [3]) \<and>
   \<not> second_rejects 1 (with_id ''m2'') \<and>
   second_rejects 2 (with_id ''m2'') \<and>
   fst (messageReceived second_rejects three_clients default_thread
      (yields [\<lparr>messages = Some [with_id ''m1'']\<rparr>] (Yield \<lparr>messages = Some [with_id ''m1'']\<rparr> End))
      new_globals) = None \<and>
   fst (messageReceived second_rejects three_clients default_thread
      (yields [\<lparr>messages = Some [with_id ''m1'']\<rparr>]
         (Yield \<lparr>messages = Some ([with_id ''m1''] @ with_id ''m2'' # [with_id ''m3''])\<rparr> End))
      new_globals) = Some (SinkError 2) \<and>
   delivered (snd (messageReceived second_rejects three_clients default_thread
      (yields [\<lparr>messages = Some [with_id ''m1'']\<rparr>]
         (Yield \<lparr>messages = Some ([with_id ''m1''] @ with_id ''m2'' # [with_id ''m3''])\<rparr> End))
      new_globals)) =
     [(1, with_id ''m1''), (2, with_id ''m1''), (3, with_id ''m1''),
      (1, with_id ''m2''), (2, with_id ''m2'')]"
proof -
  let ?pre = "messageReceived second_rejects three_clients default_thread
      (yields [\<lparr>messages = Some [with_id ''m1'']\<rparr>] (Yield \<lparr>messages = Some [with_id ''m1'']\<rparr> End))
      new_globals"
  have l: "lookup three_clients default_thread = Handlers ([1] @ 2 # [3])"
    using three_clients_handlers by simp
  have q: "\<forall>x \<in> set [1]. \<not> second_rejects x (with_id ''m2'')"
    by (simp add: second_rejects_def)
  have t: "second_rejects 2 (with_id ''m2'')"
    by (simp add: second_rejects_def with_id_def)
  have f: "fst ?pre = None"
    using three_clients_handlers by (simp add: example_defs operation_defs)
  have d: "delivered (snd ?pre) = [(1, with_id ''m1''), (2, with_id ''m1''), (3, with_id ''m1'')]"
    using three_clients_handlers by (simp add: example_defs operation_defs)
  have n: "\<not> sent (sentMessages (snd ?pre)) (msg_key (with_id ''m2''))"
    using three_clients_handlers by (simp add: example_defs operation_defs)
  from f have e: "?pre = (None, snd ?pre)" by (metis prod.collapse)
  from throwing_handler_aborts_turn[where \<beta>=second_rejects and rest="[with_id ''m3'']" and s=End,
      OF l q t e n] d
  have "fst (messageReceived second_rejects three_clients default_thread
      (yields [\<lparr>messages = Some [with_id ''m1'']\<rparr>]
         (Yield \<lparr>messages = Some ([with_id ''m1''] @ with_id ''m2'' # [with_id ''m3''])\<rparr> End))
      new_globals) = Some (SinkError 2) \<and>
    delivered (snd (messageReceived second_rejects three_clients default_thread
      (yields [\<lparr>messages = Some [with_id ''m1'']\<rparr>]
         (Yield \<lparr>messages = Some ([with_id ''m1''] @ with_id ''m2'' # [with_id ''m3''])\<rparr> End))
      new_globals)) =
     [(1, with_id ''m1''), (2, with_id ''m1''), (3, with_id ''m1''),
      (1, with_id ''m2''), (2, with_id ''m2'')]"
    by simp
  with l q t f show ?thesis by simp
qed

text \<open>
  The claim as it is written fails: with two handlers of which the first throws, the
  second is never called with the message and the caller of \<open>messageReceived\<close> gets the
  exception.
\<close>

theorem isolation_counterexample:
  "lookup two_clients default_thread = Handlers [1, 2] \<and>
   fst (messageReceived first_throws two_clients default_thread
      (Yield \<lparr>messages = Some [with_id ''m2'']\<rparr> End) new_globals) = Some (SinkError 1) \<and>
   delivered (snd (messageReceived first_throws two_clients default_thread
      (Yield \<lparr>messages = Some [with_id ''m2'']\<rparr> End) new_globals)) = [(1, with_id ''m2'')] \<and>
   received_by 2 (delivered (snd (messageReceived first_throws two_clients default_thread
      (Yield \<lparr>messages = Some [with_id ''m2'']\<rparr> End) new_globals))) = []"
  by (simp add: example_defs operation_defs received_by_def)




text \<open>
  Claim C5. When the stream raises after the chunks \<open>cs\<close> have been processed, the call ends
  with the agent's error, and the state it leaves is the state after those chunks: the
  calls made before stay in the log, the keys of their messages stay recorded, and no key
  recorded before is lost.
\<close>

theorem agent_failure_no_rollback:
  assumes "messageReceived \<beta> a thread (yields cs End) g = (None, g')"
  shows "messageReceived \<beta> a thread (yields cs (Raise e)) g = (Some (AgentError e), g') \<and>
         (\<exists>ds. delivered g' = delivered g @ ds \<and>
               (\<forall>d \<in> set ds. sent (sentMessages g') (msg_key (snd d)))) \<and>
         (\<forall>k. sent (sentMessages g) k \<longrightarrow> sent (sentMessages g') k)"
proof -
  have r: "messageReceived \<beta> a thread (yields cs (Raise e)) g = (Some (AgentError e), g')"
    using assms by (simp add: messageReceived_yields[where s="Raise e"])
  let ?ms = "stream_messages (yields cs End)"
  from messageReceived_None[OF assms]
  have d: "delivered g' = delivered g @ fanout (handlers_of a thread) (unsent (sentMessages g) ?ms)"
    and k: "sentMessages g' = mark_sent (sentMessages g) ?ms" by blast+
  have keys: "sent (sentMessages g') (msg_key (snd x))"
    if "x \<in> set (fanout (handlers_of a thread) (unsent (sentMessages g) ?ms))" for x
  proof -
    from that have "snd x \<in> set (unsent (sentMessages g) ?ms)" by (auto simp: fanout_def)
    with set_unsent have "snd x \<in> set ?ms" by blast
    then show ?thesis unfolding k by (rule mark_sent_keys)
  qed
  have mono: "sent (sentMessages g') k'" if "sent (sentMessages g) k'" for k'
    unfolding k using that by (rule mark_sent_mono)
  from r d keys mono show ?thesis by blast
qed

theorem agent_failure_no_rollback_witness:
  "messageReceived polite two_clients default_thread
      (yields [\<lparr>messages = Some [with_id ''m1'']\<rparr>, \<lparr>messages = Some [with_id ''m1'', with_id ''m2'']\<rparr>]
         (Raise ''timeout'')) new_globals =
     (Some (AgentError ''timeout''),
      snd (messageReceived polite two_clients default_thread
        (yields [\<lparr>messages = Some [with_id ''m1'']\<rparr>, \<lparr>messages = Some [with_id ''m1'', with_id ''m2'']\<rparr>]
           End) new_globals)) \<and>
   delivered (snd (messageReceived polite two_clients default_thread
        (yields [\<lparr>messages = Some [with_id ''m1'']\<rparr>, \<lparr>messages = Some [with_id ''m1'', with_id ''m2'']\<rparr>]
           End) new_globals)) =
     [(1, with_id ''m1''), (2, with_id ''m1''), (1, with_id ''m2''), (2, with_id ''m2'')]"
proof -
  let ?cs = "[\<lparr>messages = Some [with_id ''m1'']\<rparr>, \<lparr>messages = Some [with_id ''m1'', with_id ''m2'']\<rparr>]"
  let ?r = "messageReceived polite two_clients default_thread (yields ?cs End) new_globals"
  have f: "fst ?r = None"
    using two_clients_handlers by (simp add: example_defs operation_defs)
  have d: "delivered (snd ?r) =
      [(1, with_id ''m1''), (2, with_id ''m1''), (1, with_id ''m2''), (2, with_id ''m2'')]"
    using two_clients_handlers by (simp add: example_defs operation_defs)
  from f have "?r = (None, snd ?r)" by (metis prod.collapse)
  from agent_failure_no_rollback[OF this, of "''timeout''"] d show ?thesis by simp
qed

text \<open>
  Claim C6. The guard \<open>if (!this.messagesHandlers[uuid]) return;\<close> lets the removal end at
  once for a thread without an array. For a thread id that is a name inherited from
  \<open>Object.prototype\<close> the guard reads a function, and the call of \<open>filter\<close> on it throws:
  the removal on a thread that has no subscription list raises an error.
\<close>

theorem unsubscribe_inherited_name_throws:
  "lookup new_agent ''constructor'' = Inherited \<and>
   unregisterNewMessageHandler ''constructor'' h new_agent =
     Inl (TypeError ''filter is not a function'')"
  by (simp add: unregisterNewMessageHandler_def lookup_def object_prototype_keys_def)

text \<open>
  For every other thread id the removal is as the claim says: without an array, or with
  a handler that is not in the array, it completes and changes nothing; so a second
  removal of the same handler changes nothing either.
\<close>

lemma unsubscribe_noop:
  assumes "uuid \<notin> set object_prototype_keys"
  shows "messagesHandlers a uuid = None \<longrightarrow> unregisterNewMessageHandler uuid h a = Inr a"
    and "h \<notin> set (handlers_of a uuid) \<longrightarrow> unregisterNewMessageHandler uuid h a = Inr a"
    and "\<exists>a'. unregisterNewMessageHandler uuid h a = Inr a' \<and>
              unregisterNewMessageHandler uuid h a' = Inr a'"
proof -
  show 1: "messagesHandlers a uuid = None \<longrightarrow> unregisterNewMessageHandler uuid h a = Inr a"
    using assms by (simp add: unregisterNewMessageHandler_def lookup_def)
  show 2: "h \<notin> set (handlers_of a uuid) \<longrightarrow> unregisterNewMessageHandler uuid h a = Inr a" for a
  proof (cases "lookup a uuid")
    case Undefined
    then show ?thesis by (simp add: unregisterNewMessageHandler_def)
  next
    case Inherited
    with assms show ?thesis by (simp add: lookup_Inherited)
  next
    case (Handlers hs)
    with unregister_absent[OF Handlers, of h] show ?thesis by (simp add: handlers_of_def)
  qed
  show "\<exists>a'. unregisterNewMessageHandler uuid h a = Inr a' \<and>
              unregisterNewMessageHandler uuid h a' = Inr a'"
  proof (cases "lookup a uuid")
    case Undefined
    then show ?thesis by (simp add: unregisterNewMessageHandler_def)
  next
    case Inherited
    with assms show ?thesis by (simp add: lookup_Inherited)
  next
    case (Handlers hs)
    from unregister_Handlers[OF Handlers, of h] obtain a' where
      u: "unregisterNewMessageHandler uuid h a = Inr a'"
      and l: "lookup a' uuid = Handlers (filter (\<lambda>x. x \<noteq> h) hs)" by blast
    from l have "h \<notin> set (handlers_of a' uuid)" by (simp add: handlers_of_def)
    with 2[of a'] u show ?thesis by simp
  qed
qed

text \<open>
  Claim C7. When the array of the thread holds the handler, once or several times, the
  removal completes and the new array of the thread is the old one without the
  occurrences of that handler: the handler is no longer in it, every other handler
  stands in it as many times as before, and the order is the old one.
\<close>

theorem unsubscribe_removes_only_that_handler:
  assumes "lookup a uuid = Handlers hs" and "h \<in> set hs"
  shows "\<exists>a'. unregisterNewMessageHandler uuid h a = Inr a' \<and>
           lookup a' uuid = Handlers (handlers_of a' uuid) \<and>
           h \<notin> set (handlers_of a' uuid) \<and>
           (\<forall>x. x \<noteq> h \<longrightarrow> count_list (handlers_of a' uuid) x = count_list hs x) \<and>
           subseq (handlers_of a' uuid) hs \<and>
           handlers_of a' uuid = filter (\<lambda>x. x \<noteq> h) hs"
proof -
  from unregister_Handlers[OF assms(1), of h] obtain a' where
    u: "unregisterNewMessageHandler uuid h a = Inr a'"
    and l: "lookup a' uuid = Handlers (filter (\<lambda>x. x \<noteq> h) hs)" by blast
  from l have hs': "handlers_of a' uuid = filter (\<lambda>x. x \<noteq> h) hs"
    by (simp add: handlers_of_def)
  have "subseq (filter (\<lambda>x. x \<noteq> h) hs) hs" by (rule subseq_filter_left)
  with u l hs' show ?thesis by (auto simp: count_list_filter_other)
qed

theorem unsubscribe_removes_only_that_handler_witness:
  "lookup two_clients default_thread = Handlers [1, 2] \<and>
   (1::nat) \<in> set [1, 2] \<and>
   (\<exists>a'. unregisterNewMessageHandler default_thread 1 two_clients = Inr a' \<and>
         handlers_of a' default_thread = [2])"
proof -
  have m: "(1::nat) \<in> set [1, 2]" by simp
  from unsubscribe_removes_only_that_handler[OF two_clients_handlers m] two_clients_handlers
  show ?thesis by auto
qed

text \<open>
  Claim C8. Removing the only handler of a thread leaves the thread with an empty array,
  not without one; a registration that follows succeeds and the thread's array is then
  the new handler alone, which is called with the next message sent on the thread. A
  registration or a removal that completes leaves the entry of every other thread as it
  was (one that throws leaves the whole table as it was).
\<close>

theorem unsubscribe_keeps_thread_entry:
  assumes "lookup a uuid = Handlers [h]"
  shows "\<exists>aold anew. unregisterNewMessageHandler uuid h a = Inr aold \<and>
           lookup aold uuid = Handlers [] \<and>
           registerNewMessageHandler hnew uuid aold = Inr anew \<and>
           lookup anew uuid = Handlers [hnew] \<and>
           delivered (snd (sendMessageToClients \<beta> anew uuid m g)) = delivered g @ [(hnew, m)] \<and>
           (\<forall>t. t \<noteq> uuid \<longrightarrow> lookup aold t = lookup a t \<and> lookup anew t = lookup a t) \<and>
           (\<forall>b b' u x t. registerNewMessageHandler x u b = Inr b' \<and> t \<noteq> u \<longrightarrow>
              messagesHandlers b' t = messagesHandlers b t) \<and>
           (\<forall>b b' u x t. unregisterNewMessageHandler u x b = Inr b' \<and> t \<noteq> u \<longrightarrow>
              messagesHandlers b' t = messagesHandlers b t)"
proof -
  from unregister_Handlers[OF assms, of h] obtain aold where
    u: "unregisterNewMessageHandler uuid h a = Inr aold"
    and l1: "lookup aold uuid = Handlers []" by auto
  from l1 have reg: "uuid \<notin> set object_prototype_keys"
    using lookup_Inherited[of aold uuid] by simp
  from register_regular[OF reg, of hnew aold] obtain anew where
    r: "registerNewMessageHandler hnew uuid aold = Inr anew" by blast
  from register_handlers_of[OF r] l1 have l2: "lookup anew uuid = Handlers [hnew]"
    by (simp add: handlers_of_def)
  have d: "delivered (snd (sendMessageToClients \<beta> anew uuid m g)) = delivered g @ [(hnew, m)]"
    using l2 by (simp add: sendMessageToClients_def Let_def)
  have f: "lookup aold t = lookup a t \<and> lookup anew t = lookup a t" if "t \<noteq> uuid" for t
    using unregister_frame[OF u that] register_frame[OF r that] by simp
  have fr: "messagesHandlers b' t = messagesHandlers b t"
    if "registerNewMessageHandler x u b = Inr b' \<and> t \<noteq> u" for b b' u x t
    using that by (cases "lookup b u") (auto simp: registerNewMessageHandler_def)
  have fu: "messagesHandlers b' t = messagesHandlers b t"
    if "unregisterNewMessageHandler u x b = Inr b' \<and> t \<noteq> u" for b b' u x t
    using that by (cases "lookup b u") (auto simp: unregisterNewMessageHandler_def)
  have fr': "\<forall>b b' u x t. registerNewMessageHandler x u b = Inr b' \<and> t \<noteq> u \<longrightarrow>
              messagesHandlers b' t = messagesHandlers b t"
    using fr by blast
  have fu': "\<forall>b b' u x t. unregisterNewMessageHandler u x b = Inr b' \<and> t \<noteq> u \<longrightarrow>
              messagesHandlers b' t = messagesHandlers b t"
    using fu by blast
  have f': "\<forall>t. t \<noteq> uuid \<longrightarrow> lookup aold t = lookup a t \<and> lookup anew t = lookup a t"
    using f by blast
  show ?thesis
    by (intro exI[of _ aold] exI[of _ anew] conjI) (rule u l1 r l2 d f' fr' fu')+
qed

theorem unsubscribe_keeps_thread_entry_witness:
  "lookup (agents late_subscriber 0) default_thread = Handlers [7] \<and>
   (\<exists>aold anew. unregisterNewMessageHandler default_thread 7 (agents late_subscriber 0) = Inr aold \<and>
           lookup aold default_thread = Handlers [] \<and>
           registerNewMessageHandler 8 default_thread aold = Inr anew \<and>
           lookup anew default_thread = Handlers [8] \<and>
           delivered (snd (sendMessageToClients polite anew default_thread (with_id ''m9'') new_globals)) =
             [(8, with_id ''m9'')])"
proof -
  from unsubscribe_keeps_thread_entry[OF late_subscriber_handlers,
      where hnew=8 and \<beta>=polite and m="with_id ''m9''" and g=new_globals]
  obtain aold anew where
    "unregisterNewMessageHandler default_thread 7 (agents late_subscriber 0) = Inr aold"
    "lookup aold default_thread = Handlers []"
    "registerNewMessageHandler 8 default_thread aold = Inr anew"
    "lookup anew default_thread = Handlers [8]"
    "delivered (snd (sendMessageToClients polite anew default_thread (with_id ''m9'') new_globals)) =
       delivered new_globals @ [(8, with_id ''m9'')]"
    by blast
  with late_subscriber_handlers show ?thesis by (auto simp: new_globals_def)
qed

text \<open>
  Claim C9. Within one call of \<open>messageReceived\<close> the calls made to handlers are a prefix of
  the sequence that takes the messages not yet sent in the order the chunks arrive (and,
  in a chunk, in the order of its array) and sends each to the handlers of the thread in
  the order of their array; the sequence is complete when no handler throws. A handler
  that stands once in the array so receives the messages first in, first out. The array
  is in the order of registration, since a registration appends.
\<close>

theorem messageReceived_delivers_in_order:
  "\<exists>ds. delivered (snd (messageReceived \<beta> a thread s g)) = delivered g @ ds \<and>
        prefix ds (fanout (handlers_of a thread) (unsent (sentMessages g) (stream_messages s))) \<and>
        ((\<forall>h \<in> set (handlers_of a thread).
            \<forall>m \<in> set (unsent (sentMessages g) (stream_messages s)). \<not> \<beta> h m) \<longrightarrow>
         ds = fanout (handlers_of a thread) (unsent (sentMessages g) (stream_messages s))) \<and>
        (\<forall>h. count_list (handlers_of a thread) h = 1 \<longrightarrow>
           prefix (received_by h ds) (unsent (sentMessages g) (stream_messages s))) \<and>
        (\<forall>h' a'. registerNewMessageHandler h' thread a = Inr a' \<longrightarrow>
           handlers_of a' thread = handlers_of a thread @ [h'])"
proof -
  let ?new = "unsent (sentMessages g) (stream_messages s)"
  let ?hs = "handlers_of a thread"
  obtain ds where d: "delivered (snd (messageReceived \<beta> a thread s g)) = delivered g @ ds"
    and p: "prefix ds (fanout ?hs ?new)"
    using messageReceived_log by blast
  have full: "ds = fanout ?hs ?new" if nt: "\<forall>h \<in> set ?hs. \<forall>m \<in> set ?new. \<not> \<beta> h m"
  proof (cases "lookup a thread = Inherited")
    case True
    with p show ?thesis by (simp add: inherited_no_handlers)
  next
    case False
    from messageReceived_ok[where \<beta>=\<beta>, OF False nt] d show ?thesis by simp
  qed
  have fifo: "prefix (received_by h ds) ?new" if "count_list ?hs h = 1" for h
    using received_by_prefix[OF p, of h] received_by_fanout_once[OF that] by simp
  have reg: "handlers_of a' thread = ?hs @ [h']" if "registerNewMessageHandler h' thread a = Inr a'" for h' a'
    using register_handlers_of[OF that] by (simp add: handlers_of_def)
  from d p full fifo reg show ?thesis by blast
qed

theorem messageReceived_delivers_in_order_witness:
  "delivered (snd (messageReceived polite two_clients default_thread
      (three_snapshots (with_id ''m1'') (with_id ''m2'') (with_id ''m3'')) new_globals)) =
     [(1, with_id ''m1''), (2, with_id ''m1''), (1, with_id ''m2''), (2, with_id ''m2''),
      (1, with_id ''m3''), (2, with_id ''m3'')] \<and>
   received_by 1 [(1, with_id ''m1''), (2, with_id ''m1''), (1, with_id ''m2''), (2, with_id ''m2''),
      (1, with_id ''m3''), (2, with_id ''m3'')] = [with_id ''m1'', with_id ''m2'', with_id ''m3'']"
proof -
  let ?s = "three_snapshots (with_id ''m1'') (with_id ''m2'') (with_id ''m3'')"
  have hs: "handlers_of two_clients default_thread = [1, 2]"
    using two_clients_handlers by (simp add: handlers_of_def)
  have new: "unsent (sentMessages new_globals) (stream_messages ?s) =
      [with_id ''m1'', with_id ''m2'', with_id ''m3'']"
    by (simp add: example_defs operation_defs)
  have quiet: "\<forall>h \<in> set (handlers_of two_clients default_thread).
      \<forall>m \<in> set (unsent (sentMessages new_globals) (stream_messages ?s)). \<not> polite h m"
    by (simp add: polite_def)
  from messageReceived_delivers_in_order[of polite two_clients default_thread ?s new_globals] quiet
  have "delivered (snd (messageReceived polite two_clients default_thread ?s new_globals)) =
      delivered new_globals @
      fanout (handlers_of two_clients default_thread)
        (unsent (sentMessages new_globals) (stream_messages ?s))"
    by metis
  then show ?thesis
    unfolding hs new by (simp add: new_globals_def received_by_def)
qed




end
